theory Spec2Isabelle
  imports Complex_Main "HOL-Library.Multiset"
begin

section \<open>Data model\<close>

text \<open>
  The dashboard script \<^verbatim>\<open>app.py\<close> works on pandas data frames. A numeric cell is a
  float that may be NaN; it is modelled as \<open>real option\<close> with \<open>None\<close> for NaN, and the
  arithmetic on present values is exact. A timestamp is the integer number of
  nanoseconds since the epoch (the value of a pandas \<^verbatim>\<open>Timestamp\<close>); \<open>None\<close> is
  \<^verbatim>\<open>NaT\<close>. A row maps a column name to its cell.
\<close>

type_synonym row = "string \<Rightarrow> real option"

datatype error = KeyError | IndexError | ParseError

text \<open>The six options of the \<^verbatim>\<open>Resample (average)\<close> select box:
  \<^verbatim>\<open>"5T", "15T", "30T", "1H", "6H", "1D"\<close>.\<close>

datatype rule = R5T | R15T | R30T | R1H | R6H | R1D

definition minute :: int where
  "minute = 60000000000"

definition day :: int where
  "day = 1440 * minute"

fun width :: "rule \<Rightarrow> int" where
  "width R5T = 5 * minute"
| "width R15T = 15 * minute"
| "width R30T = 30 * minute"
| "width R1H = 60 * minute"
| "width R6H = 360 * minute"
| "width R1D = day"

text \<open>A frame after \<^verbatim>\<open>set_index("timestamp")\<close>: the column names in order and the
  rows, each with its index value.\<close>

record frame =
  columns :: "string list"
  rows :: "(int \<times> row) list"

section \<open>Reductions that skip NaN\<close>

definition present :: "real option list \<Rightarrow> real list" where
  "present vs = List.map_filter id vs"

text \<open>\<^verbatim>\<open>Series.mean()\<close> with the default \<^verbatim>\<open>skipna=True\<close>: the mean of the present
  values, NaN when there is none.\<close>

definition mean_skipna :: "real option list \<Rightarrow> real option" where
  "mean_skipna vs =
     (let ps = present vs
      in if ps = [] then None else Some (sum_list ps / real (length ps)))"

section \<open>Resampler\<close>

text \<open>
  \<^verbatim>\<open>view.set_index("timestamp").resample(resample_rule).mean(numeric_only=True)\<close>
  with the defaults of pandas for a fixed-width frequency: bins are closed on the left
  and labelled by their left edge, and they are aligned to \<^verbatim>\<open>origin='start_day'\<close>,
  midnight of the day of the earliest index value. One output row is produced for every
  bin from the bin of the earliest index value to the bin of the latest one.
\<close>

definition bucket_start :: "int \<Rightarrow> int \<Rightarrow> int \<Rightarrow> int" where
  "bucket_start origin w t = origin + ((t - origin) div w) * w"

definition start_day :: "int \<Rightarrow> int" where
  "start_day t = (t div day) * day"

definition bin_labels :: "int \<Rightarrow> int \<Rightarrow> int \<Rightarrow> int list" where
  "bin_labels lo hi w = map (\<lambda>k. lo + int k * w) [0 ..< nat ((hi - lo) div w) + 1]"

definition bin_mean :: "int \<Rightarrow> int \<Rightarrow> (int \<times> row) list \<Rightarrow> int \<Rightarrow> row" where
  "bin_mean origin w rs b =
     (\<lambda>z. mean_skipna (map (\<lambda>r. snd r z) (filter (\<lambda>r. bucket_start origin w (fst r) = b) rs)))"

definition resample_mean :: "rule \<Rightarrow> (int \<times> row) list \<Rightarrow> (int \<times> row) list" where
  "resample_mean r rs =
     (if rs = [] then []
      else
        let w = width r;
            first = Min (fst ` set rs);
            last = Max (fst ` set rs);
            origin = start_day first;
            lo = bucket_start origin w first;
            hi = bucket_start origin w last
        in map (\<lambda>b. (b, bin_mean origin w rs b)) (bin_labels lo hi w))"

text \<open>The input records of the bin that starts at \<open>b\<close>: the half-open range
  \<open>b \<le> t < b + width r\<close>.\<close>

definition bucket_records :: "rule \<Rightarrow> (int \<times> row) list \<Rightarrow> int \<Rightarrow> (int \<times> row) list" where
  "bucket_records r rs b = filter (\<lambda>x. b \<le> fst x \<and> fst x < b + width r) rs"

section \<open>Loading: \<^verbatim>\<open>load_data\<close>\<close>

text \<open>
  The table that \<^verbatim>\<open>pd.read_excel\<close> returns: the column names in order, which columns
  have a numeric dtype, and the rows. The cell type \<open>'c\<close> is left open. Parsing a cell
  as a date/time is done by pandas and is a parameter \<open>parse\<close> of the model: \<open>None\<close>
  when \<^verbatim>\<open>pd.to_datetime\<close> raises on the cell, \<open>Some None\<close> when it gives \<^verbatim>\<open>NaT\<close>
  (an empty cell), \<open>Some (Some t)\<close> for the instant \<open>t\<close>. Reading a cell as a float is
  the parameter \<open>num\<close>.
\<close>

record 'c table =
  tcolumns :: "string list"
  tnumeric :: "string \<Rightarrow> bool"
  trows :: "(string \<Rightarrow> 'c) list"

record dataset =
  numeric_cols :: "string list"
  records :: "(int option \<times> row) list"

text \<open>Python's \<^verbatim>\<open>sub in s\<close> on strings.\<close>

fun starts_with :: "string \<Rightarrow> string \<Rightarrow> bool" where
  "starts_with [] s = True"
| "starts_with (p # ps) [] = False"
| "starts_with (p # ps) (c # cs) = (p = c \<and> starts_with ps cs)"

fun contains :: "string \<Rightarrow> string \<Rightarrow> bool" where
  "contains sub [] = (sub = [])"
| "contains sub (c # cs) = (starts_with sub (c # cs) \<or> contains sub cs)"

definition name_match :: "string \<Rightarrow> bool" where
  "name_match c \<longleftrightarrow> contains ''interval'' c \<and> contains ''start'' c \<and> contains ''local'' c"

text \<open>\<^verbatim>\<open>pd.to_datetime(df[c])\<close>: raises as soon as one cell does not parse.\<close>

fun to_datetime :: "('c \<Rightarrow> int option option) \<Rightarrow> 'c list \<Rightarrow> error + int option list" where
  "to_datetime parse [] = Inr []"
| "to_datetime parse (x # xs) =
     (case parse x of
        None \<Rightarrow> Inl ParseError
      | Some t \<Rightarrow> (case to_datetime parse xs of Inl e \<Rightarrow> Inl e | Inr ts \<Rightarrow> Inr (t # ts)))"

definition column_cells :: "'c table \<Rightarrow> string \<Rightarrow> 'c list" where
  "column_cells df c = map (\<lambda>r. r c) (trows df)"

text \<open>The \<^verbatim>\<open>try\<close> around \<^verbatim>\<open>pd.to_datetime(df[c])\<close>: whether the call returns.\<close>

definition datetime_like :: "('c \<Rightarrow> int option option) \<Rightarrow> 'c table \<Rightarrow> string \<Rightarrow> bool" where
  "datetime_like parse df c =
     (case to_datetime parse (column_cells df c) of Inl _ \<Rightarrow> False | Inr _ \<Rightarrow> True)"

definition time_col_candidates :: "('c \<Rightarrow> int option option) \<Rightarrow> 'c table \<Rightarrow> string list" where
  "time_col_candidates parse df =
     (let named = filter name_match (tcolumns df)
      in if length named = 0
         then filter (datetime_like parse df) (tcolumns df)
         else named)"

definition time_col :: "('c \<Rightarrow> int option option) \<Rightarrow> 'c table \<Rightarrow> error + string" where
  "time_col parse df =
     (case time_col_candidates parse df of
        c # _ \<Rightarrow> Inr c
      | [] \<Rightarrow> (case tcolumns df of [] \<Rightarrow> Inl IndexError | c # _ \<Rightarrow> Inr c))"

text \<open>
  \<^verbatim>\<open>df.sort_values("timestamp")\<close>: ascending, with the \<^verbatim>\<open>NaT\<close> rows last. pandas does not
  fix the order of rows with equal timestamps; the model keeps their table order.
\<close>

definition sort_values :: "(int option \<times> 'a) list \<Rightarrow> (int option \<times> 'a) list" where
  "sort_values rs =
     sort_key (\<lambda>r. the (fst r)) (filter (\<lambda>r. fst r \<noteq> None) rs) @ filter (\<lambda>r. fst r = None) rs"

text \<open>The numeric columns are selected after the column \<^verbatim>\<open>timestamp\<close> has been
  (over)written with parsed instants, which are not of a numeric dtype.\<close>

definition load_data ::
  "('c \<Rightarrow> int option option) \<Rightarrow> ('c \<Rightarrow> real option) \<Rightarrow> 'c table \<Rightarrow> error + dataset" where
  "load_data parse num df =
     (case time_col parse df of
        Inl e \<Rightarrow> Inl e
      | Inr tc \<Rightarrow>
          (case to_datetime parse (column_cells df tc) of
             Inl e \<Rightarrow> Inl e
           | Inr ts \<Rightarrow>
               let ncols = filter (\<lambda>c. tnumeric df c \<and> c \<noteq> ''timestamp'') (tcolumns df)
               in Inr \<lparr>numeric_cols = ncols,
                       records = sort_values
                         (zip ts (map (\<lambda>r z. if z \<in> set ncols then num (r z) else None) (trows df)))\<rparr>))"

text \<open>The order of a loaded data set: ascending instants, then the \<^verbatim>\<open>NaT\<close> rows.\<close>

fun stamp_le :: "int option \<Rightarrow> int option \<Rightarrow> bool" where
  "stamp_le _ None = True"
| "stamp_le None (Some b) = False"
| "stamp_le (Some a) (Some b) = (a \<le> b)"

definition time_sorted :: "(int option \<times> 'a) list \<Rightarrow> bool" where
  "time_sorted rs = sorted_wrt (\<lambda>x y. stamp_le (fst x) (fst y)) rs"

text \<open>What the specification asks of the name test instead: the same three substrings,
  matched without regard to case.\<close>

definition to_lower :: "char \<Rightarrow> char" where
  "to_lower c =
     (case map_of (zip ''ABCDEFGHIJKLMNOPQRSTUVWXYZ'' ''abcdefghijklmnopqrstuvwxyz'') c of
        None \<Rightarrow> c | Some l \<Rightarrow> l)"

definition spec_name_match :: "string \<Rightarrow> bool" where
  "spec_name_match c = name_match (map to_lower c)"

definition spec_time_col :: "('c \<Rightarrow> int option option) \<Rightarrow> 'c table \<Rightarrow> error + string" where
  "spec_time_col parse df =
     (case filter spec_name_match (tcolumns df) of
        c # _ \<Rightarrow> Inr c
      | [] \<Rightarrow>
         (case filter (datetime_like parse df) (tcolumns df) of
            c # _ \<Rightarrow> Inr c
          | [] \<Rightarrow> (case tcolumns df of [] \<Rightarrow> Inl IndexError | c # _ \<Rightarrow> Inr c)))"

section \<open>Time window\<close>

text \<open>\<^verbatim>\<open>mask = (df["timestamp"] >= start) & (df["timestamp"] <= end)\<close>; a comparison
  with \<^verbatim>\<open>NaT\<close> is false.\<close>

definition mask :: "int \<Rightarrow> int \<Rightarrow> int option \<times> row \<Rightarrow> bool" where
  "mask start_t end_t r =
     (case fst r of None \<Rightarrow> False | Some t \<Rightarrow> start_t \<le> t \<and> t \<le> end_t)"

definition time_window_filter ::
  "int \<Rightarrow> int \<Rightarrow> (int option \<times> row) list \<Rightarrow> (int option \<times> row) list" where
  "time_window_filter start_t end_t rs = filter (mask start_t end_t) rs"

definition set_index :: "(int option \<times> row) list \<Rightarrow> (int \<times> row) list" where
  "set_index rs = List.map_filter (\<lambda>r. map_option (\<lambda>t. (t, snd r)) (fst r)) rs"

definition make_view :: "dataset \<Rightarrow> int \<Rightarrow> int \<Rightarrow> rule \<Rightarrow> frame" where
  "make_view d start_t end_t r =
     \<lparr>columns = numeric_cols d,
      rows = resample_mean r (set_index (time_window_filter start_t end_t (records d)))\<rparr>"

section \<open>KPI target and KPIs\<close>

definition getcol :: "frame \<Rightarrow> string \<Rightarrow> error + real option list" where
  "getcol df z =
     (if z \<in> set (columns df) then Inr (map (\<lambda>r. snd r z) (rows df)) else Inl KeyError)"

text \<open>\<^verbatim>\<open>df[zs].sum(axis=1)\<close>: a NaN counts as 0, so the sum of a row is never NaN.\<close>

definition row_sum :: "string list \<Rightarrow> row \<Rightarrow> real" where
  "row_sum zs v = sum_list (map (\<lambda>z. case v z of None \<Rightarrow> 0 | Some x \<Rightarrow> x) zs)"

definition sum_axis1 :: "frame \<Rightarrow> string list \<Rightarrow> error + real option list" where
  "sum_axis1 df zs =
     (if set zs \<subseteq> set (columns df)
      then Inr (map (\<lambda>r. Some (row_sum zs (snd r))) (rows df))
      else Inl KeyError)"

definition series_for_kpis :: "string list \<Rightarrow> string list \<Rightarrow> frame \<Rightarrow> error + real option list" where
  "series_for_kpis selected_zones ncols df_view =
     (if ''pjm_rto'' \<in> set (columns df_view) then getcol df_view ''pjm_rto''
      else if selected_zones \<noteq> [] then sum_axis1 df_view selected_zones
      else sum_axis1 df_view ncols)"

record kpi_set =
  peak :: "real option"
  trough :: "real option"
  average :: "real option"
  pct :: "real option"

definition max_skipna :: "real option list \<Rightarrow> real option" where
  "max_skipna vs = (let ps = present vs in if ps = [] then None else Some (Max (set ps)))"

definition min_skipna :: "real option list \<Rightarrow> real option" where
  "min_skipna vs = (let ps = present vs in if ps = [] then None else Some (Min (set ps)))"

text \<open>Float arithmetic on cells: NaN is absorbing.\<close>

definition nan_lift :: "(real \<Rightarrow> real \<Rightarrow> real) \<Rightarrow> real option \<Rightarrow> real option \<Rightarrow> real option" where
  "nan_lift f a b = (case a of None \<Rightarrow> None | Some x \<Rightarrow> (case b of None \<Rightarrow> None | Some y \<Rightarrow> Some (f x y)))"

text \<open>The test \<^verbatim>\<open>target.iloc[0] != 0\<close> is true of NaN.\<close>

definition pct_change :: "real option list \<Rightarrow> real option" where
  "pct_change target =
     (if length target \<ge> 2 \<and> hd target \<noteq> Some 0
      then nan_lift (\<lambda>q c. q * c)
             (nan_lift (\<lambda>n d. n / d)
                (nan_lift (\<lambda>l f. l - f) (last target) (hd target))
                (map_option abs (hd target)))
             (Some 100)
      else None)"

text \<open>The four cards are drawn only under \<^verbatim>\<open>if not target.empty\<close>.\<close>

definition kpis :: "real option list \<Rightarrow> kpi_set option" where
  "kpis target =
     (if target = [] then None
      else Some \<lparr>peak = max_skipna target, trough = min_skipna target,
                 average = mean_skipna target, pct = pct_change target\<rparr>)"

section \<open>Trend, ranking and grouping target\<close>

text \<open>\<^verbatim>\<open>view.melt(id_vars="timestamp", value_vars=selected_zones)\<close>, done only when a
  zone is selected.\<close>

definition melt :: "frame \<Rightarrow> string list \<Rightarrow> error + (int \<times> string \<times> real option) list" where
  "melt df zs =
     (if set zs \<subseteq> set (columns df)
      then Inr (concat (map (\<lambda>z. map (\<lambda>r. (fst r, z, snd r z)) (rows df)) zs))
      else Inl KeyError)"

text \<open>\<^verbatim>\<open>view[numeric_cols].mean(numeric_only=True).sort_values(ascending=False)\<close>:
  the zones with a mean in descending order of it, then the zones whose mean is NaN.\<close>

definition sort_desc :: "(string \<times> real option) list \<Rightarrow> (string \<times> real option) list" where
  "sort_desc ms =
     sort_key (\<lambda>m. - the (snd m)) (filter (\<lambda>m. snd m \<noteq> None) ms) @ filter (\<lambda>m. snd m = None) ms"

definition zone_means :: "frame \<Rightarrow> string list \<Rightarrow> error + (string \<times> real option) list" where
  "zone_means df ncols =
     (if set ncols \<subseteq> set (columns df)
      then Inr (sort_desc (map (\<lambda>z. (z, mean_skipna (map (\<lambda>r. snd r z) (rows df)))) ncols))
      else Inl KeyError)"

text \<open>Descending order of a ranking: a zone with a mean is before every zone with a smaller
  mean and before every zone whose mean is NaN.\<close>

definition rank_ge :: "string \<times> real option \<Rightarrow> string \<times> real option \<Rightarrow> bool" where
  "rank_ge a b =
     (case snd b of None \<Rightarrow> True | Some y \<Rightarrow> (case snd a of None \<Rightarrow> False | Some x \<Rightarrow> y \<le> x))"

text \<open>The column of the daily and of the hourly chart.\<close>

definition ycol :: "frame \<Rightarrow> string list \<Rightarrow> string list \<Rightarrow> error + string" where
  "ycol df selected_zones ncols =
     (if ''pjm_rto'' \<in> set (columns df) then Inr ''pjm_rto''
      else (case selected_zones of
              z # _ \<Rightarrow> Inr z
            | [] \<Rightarrow> (case ncols of z # _ \<Rightarrow> Inr z | [] \<Rightarrow> Inl IndexError)))"

text \<open>The series a grouping chart draws: \<^verbatim>\<open>px.bar(day, x="timestamp", y=ycol)\<close> takes the
  column \<open>ycol\<close> of its frame, and \<^verbatim>\<open>groupby("hour")[ycol2]\<close> does the same. The frames
  \<^verbatim>\<open>day\<close> and \<^verbatim>\<open>tmp\<close> have the columns of the view.\<close>

definition series_for_group :: "string list \<Rightarrow> string list \<Rightarrow> frame \<Rightarrow> error + real option list" where
  "series_for_group selected_zones ncols df =
     (case ycol df selected_zones ncols of Inl e \<Rightarrow> Inl e | Inr z \<Rightarrow> getcol df z)"

section \<open>One run of the script\<close>

text \<open>The script runs top to bottom and an exception ends the run: the KPI cards, then
  the trend chart, then the ranking of the zones.\<close>

record outputs =
  out_view :: frame
  out_kpis :: "kpi_set option"
  out_trend :: "(int \<times> string \<times> real option) list"
  out_zone_means :: "(string \<times> real option) list"

definition dashboard :: "dataset \<Rightarrow> int \<Rightarrow> int \<Rightarrow> rule \<Rightarrow> string list \<Rightarrow> error + outputs" where
  "dashboard d start_t end_t r selected_zones =
     (let view = make_view d start_t end_t r
      in case series_for_kpis selected_zones (numeric_cols d) view of
           Inl e \<Rightarrow> Inl e
         | Inr target \<Rightarrow>
             (case (if selected_zones \<noteq> [] then melt view selected_zones else Inr []) of
                Inl e \<Rightarrow> Inl e
              | Inr trend \<Rightarrow>
                  (case zone_means view (numeric_cols d) of
                     Inl e \<Rightarrow> Inl e
                   | Inr zm \<Rightarrow>
                       Inr \<lparr>out_view = view, out_kpis = kpis target,
                            out_trend = trend, out_zone_means = zm\<rparr>)))"

section \<open>Sample data\<close>

text \<open>Three records of two zones: two in the first hour, none in the second, one in the
  third; the second record has no value for \<^verbatim>\<open>west\<close>.\<close>

definition demo :: "(int \<times> row) list" where
  "demo = [(0, [''east'' \<mapsto> 10, ''west'' \<mapsto> 30]),
           (30 * minute, [''east'' \<mapsto> 20]),
           (120 * minute, [''east'' \<mapsto> 40, ''west'' \<mapsto> 50])]"

text \<open>A data set of these records and of one more whose timestamp is \<^verbatim>\<open>NaT\<close>.\<close>

definition demo_dataset :: dataset where
  "demo_dataset =
     \<lparr>numeric_cols = [''east'', ''west''],
      records = map (\<lambda>x. (Some (fst x), snd x)) demo @ [(None, [''east'' \<mapsto> 5])]\<rparr>"

text \<open>The sample records as a frame of the zones \<^verbatim>\<open>east\<close> and \<^verbatim>\<open>west\<close>, and a frame
  that has the system total \<^verbatim>\<open>pjm_rto\<close> as well.\<close>

definition demo_frame :: frame where
  "demo_frame = \<lparr>columns = [''east'', ''west''], rows = demo\<rparr>"

definition rto_frame :: frame where
  "rto_frame =
     \<lparr>columns = [''pjm_rto'', ''east'', ''west''],
      rows = [(0, [''pjm_rto'' \<mapsto> 100, ''east'' \<mapsto> 10, ''west'' \<mapsto> 30]),
              (60 * minute, [''pjm_rto'' \<mapsto> 120, ''east'' \<mapsto> 20])]\<rparr>"

text \<open>A sample table. Its cells are numbers, text, instants and blanks; the sample parser
  reads an instant as itself and a blank as \<^verbatim>\<open>NaT\<close>, and fails on the rest. The column
  \<^verbatim>\<open>Interval_Start_Local\<close> is spelt with capitals.\<close>

datatype cell = Num real | Txt string | Stamp int | Blank

fun demo_parse :: "cell \<Rightarrow> int option option" where
  "demo_parse (Stamp t) = Some (Some t)"
| "demo_parse Blank = Some None"
| "demo_parse _ = None"

fun demo_num :: "cell \<Rightarrow> real option" where
  "demo_num (Num x) = Some x"
| "demo_num _ = None"

definition demo_table :: "cell table" where
  "demo_table =
     \<lparr>tcolumns = [''name'', ''ts'', ''Interval_Start_Local'', ''east''],
      tnumeric = (\<lambda>c. c = ''east''),
      trows =
        [(\<lambda>_. Blank)(''name'' := Txt ''a'', ''ts'' := Stamp 20, ''Interval_Start_Local'' := Stamp 7,
            ''east'' := Num 10),
         (\<lambda>_. Blank)(''name'' := Txt ''b'', ''Interval_Start_Local'' := Stamp 8, ''east'' := Num 20),
         (\<lambda>_. Blank)(''name'' := Txt ''c'', ''ts'' := Stamp 10, ''Interval_Start_Local'' := Stamp 9)]\<rparr>"

section \<open>Properties of the resampler\<close>

lemma width_pos: "0 < width r"
  by (cases r) (simp_all add: minute_def day_def)

lemma bucket_start_range:
  assumes "0 < w"
  shows "bucket_start origin w t \<le> t \<and> t < bucket_start origin w t + w"
proof -
  define q where "q = (t - origin) div w"
  define m where "m = (t - origin) mod w"
  have "q * w + m = t - origin"
    by (simp add: q_def m_def)
  moreover have "0 \<le> m" "m < w"
    using assms by (simp_all add: m_def)
  ultimately show ?thesis
    unfolding bucket_start_def q_def [symmetric] by linarith
qed

lemma bucket_start_unique:
  assumes "0 < w" "b = origin + k * w" "b \<le> t" "t < b + w"
  shows "bucket_start origin w t = b"
proof -
  have "(t - origin) div w = k"
  proof (rule int_div_pos_eq)
    show "t - origin = w * k + (t - b)" using assms by (simp add: algebra_simps)
    show "0 \<le> t - b" using assms by simp
    show "t - b < w" using assms by simp
  qed
  then show ?thesis using assms by (simp add: bucket_start_def)
qed

lemma bucket_start_aligned: "\<exists>k. bucket_start origin w t = origin + k * w"
  by (auto simp: bucket_start_def)

lemma bin_labels_aligned:
  assumes "b \<in> set (bin_labels lo hi w)"
  shows "\<exists>k. b = lo + int k * w"
  using assms unfolding bin_labels_def set_map by blast

lemma bucket_start_iff:
  assumes "0 < w" "b = origin + k * w"
  shows "bucket_start origin w t = b \<longleftrightarrow> b \<le> t \<and> t < b + w"
  using bucket_start_range [OF assms(1), of origin t] bucket_start_unique [OF assms]
  by auto

lemma resample_entry:
  assumes "(b, v) \<in> set (resample_mean r rs)"
  shows "rs \<noteq> [] \<and> (\<exists>k. b = start_day (Min (fst ` set rs)) + k * width r)
       \<and> v = bin_mean (start_day (Min (fst ` set rs))) (width r) rs b"
proof -
  from assms have ne: "rs \<noteq> []" by (auto simp: resample_mean_def)
  let ?o = "start_day (Min (fst ` set rs))"
  let ?w = "width r"
  let ?lo = "bucket_start ?o ?w (Min (fst ` set rs))"
  let ?hi = "bucket_start ?o ?w (Max (fst ` set rs))"
  from assms ne have b: "b \<in> set (bin_labels ?lo ?hi ?w)" and v: "v = bin_mean ?o ?w rs b"
    by (auto simp: resample_mean_def Let_def)
  from bin_labels_aligned [OF b] obtain j where j: "b = ?lo + int j * ?w" ..
  from bucket_start_aligned obtain i where i: "?lo = ?o + i * ?w" by blast
  have "b = ?o + (i + int j) * ?w" using i j by (simp add: algebra_simps)
  with ne v show ?thesis by blast
qed

lemma demo_resampled:
  "resample_mean R1H demo =
     map (\<lambda>b. (b, bin_mean 0 (60 * minute) demo b)) [0, 60 * minute, 120 * minute]"
  by (simp add: resample_mean_def demo_def Let_def start_day_def bucket_start_def
      bin_labels_def minute_def day_def upt_rec)

lemma bucket_start_mono:
  assumes "0 < w" "t \<le> u"
  shows "bucket_start origin w t \<le> bucket_start origin w u"
proof -
  have "(t - origin) div w \<le> (u - origin) div w"
    using assms by (simp add: zdiv_mono1)
  then show ?thesis
    using assms by (simp add: bucket_start_def mult_right_mono)
qed

lemma bucket_start_fixed:
  assumes "0 < w" "b = origin + k * w"
  shows "bucket_start origin w b = b"
  using bucket_start_unique [OF assms, of b] assms by simp

lemma bucket_span:
  assumes "0 < w" "t \<le> u"
  shows "\<exists>n. bucket_start origin w u = bucket_start origin w t + int n * w"
proof -
  let ?d = "(u - origin) div w - (t - origin) div w"
  have "0 \<le> ?d" using assms by (simp add: zdiv_mono1)
  then have "bucket_start origin w u = bucket_start origin w t + int (nat ?d) * w"
    by (simp add: bucket_start_def algebra_simps)
  then show ?thesis ..
qed

lemma bin_labels_span:
  assumes "0 < w"
  shows "bin_labels lo (lo + int n * w) w = map (\<lambda>k. lo + int k * w) [0 ..< Suc n]"
  using assms by (simp add: bin_labels_def)

lemma labels_distinct:
  assumes "0 < w"
  shows "distinct (map (\<lambda>k. lo + int k * w) [0 ..< m])"
  using assms by (auto simp: distinct_map inj_on_def)

lemma labels_sorted:
  assumes "0 < w"
  shows "sorted_wrt (<) (map (\<lambda>k. lo + int k * w) [0 ..< m])"
proof -
  have "sorted_wrt (\<lambda>x y. lo + int x * w < lo + int y * w) [0 ..< m]"
    by (rule sorted_wrt_mono_rel [OF _ sorted_wrt_upt]) (use assms in simp)
  then show ?thesis by (simp add: sorted_wrt_map)
qed

lemma labels_Min:
  assumes "0 < w"
  shows "Min (set (map (\<lambda>k. lo + int k * w) [0 ..< Suc n])) = lo"
proof (rule Min_eqI)
  show "finite (set (map (\<lambda>k. lo + int k * w) [0 ..< Suc n]))" by simp
  show "lo \<in> set (map (\<lambda>k. lo + int k * w) [0 ..< Suc n])"
    unfolding set_map by (rule image_eqI [where x = 0]) (simp_all del: upt_Suc)
  fix y assume "y \<in> set (map (\<lambda>k. lo + int k * w) [0 ..< Suc n])"
  then obtain k where "y = lo + int k * w" unfolding set_map by blast
  then show "lo \<le> y" using assms by simp
qed

lemma labels_Max:
  assumes "0 < w"
  shows "Max (set (map (\<lambda>k. lo + int k * w) [0 ..< Suc n])) = lo + int n * w"
proof (rule Max_eqI)
  show "finite (set (map (\<lambda>k. lo + int k * w) [0 ..< Suc n]))" by simp
  show "lo + int n * w \<in> set (map (\<lambda>k. lo + int k * w) [0 ..< Suc n])"
    unfolding set_map by (rule image_eqI [where x = n]) (simp_all del: upt_Suc)
  fix y assume "y \<in> set (map (\<lambda>k. lo + int k * w) [0 ..< Suc n])"
  then have "y \<in> (\<lambda>k. lo + int k * w) ` {0 ..< Suc n}" by (simp only: set_map set_upt)
  then obtain k where "y = lo + int k * w" "k \<in> {0 ..< Suc n}" by (rule imageE)
  then show "y \<le> lo + int n * w" using assms by (simp add: mult_right_mono)
qed

lemma start_day_bucket:
  assumes "0 < w"
  shows "start_day (bucket_start (start_day t) w t) = start_day t"
proof -
  let ?lo = "bucket_start (start_day t) w t"
  have d: "0 < day" by (simp add: day_def minute_def)
  have "bucket_start (start_day t) w (start_day t) \<le> ?lo"
    by (rule bucket_start_mono [OF assms])
      (use bucket_start_range [OF d, of 0 t] in \<open>simp add: start_day_def bucket_start_def\<close>)
  then have lo1: "start_day t \<le> ?lo" by (simp add: bucket_start_def)
  have lo2: "?lo \<le> t" using bucket_start_range [OF assms] by blast
  have "start_day t div day \<le> ?lo div day" using lo1 d by (simp add: zdiv_mono1)
  moreover have "start_day t div day = t div day" using d by (simp add: start_day_def)
  moreover have "?lo div day \<le> t div day" using lo2 d by (simp add: zdiv_mono1)
  ultimately have "?lo div day = t div day" by simp
  then show ?thesis by (simp add: start_day_def)
qed

text \<open>The shape of a non-empty output.\<close>

lemma resample_shape:
  assumes "rs \<noteq> []"
  shows "\<exists>n. resample_mean r rs =
           map (\<lambda>b. (b, bin_mean (start_day (Min (fst ` set rs))) (width r) rs b))
             (map (\<lambda>k. bucket_start (start_day (Min (fst ` set rs))) (width r) (Min (fst ` set rs))
                        + int k * width r) [0 ..< Suc n])
         \<and> bucket_start (start_day (Min (fst ` set rs))) (width r) (Max (fst ` set rs))
           = bucket_start (start_day (Min (fst ` set rs))) (width r) (Min (fst ` set rs)) + int n * width r"
proof -
  let ?f = "Min (fst ` set rs)" and ?l = "Max (fst ` set rs)"
  have "?f \<le> ?l" using assms by (simp add: Min_le_iff) 
  from bucket_span [OF width_pos this] obtain n where
    n: "bucket_start (start_day ?f) (width r) ?l = bucket_start (start_day ?f) (width r) ?f + int n * width r" ..
  show ?thesis
    apply (rule exI [where x = n])
    using assms n bin_labels_span [OF width_pos]
    by (simp add: resample_mean_def Let_def)
qed

lemma filter_eq_singleton:
  assumes "distinct xs" "b \<in> set xs"
  shows "filter (\<lambda>x. x = b) xs = [b]"
  using assms by (induction xs) (auto simp: filter_empty_conv)

lemma mean_skipna_single: "mean_skipna [v] = v"
  by (cases v) (simp_all add: mean_skipna_def present_def List.map_filter_def)

lemma width_dvd_day: "width r dvd day"
  by (cases r) (simp_all add: day_def minute_def)

lemma width_dvd_start_day: "width r dvd start_day t"
  unfolding start_day_def using width_dvd_day by (rule dvd_mult)

lemma resample_entry_mean:
  assumes "(b, v) \<in> set (resample_mean r rs)"
  shows "v z = mean_skipna (map (\<lambda>x. snd x z) (bucket_records r rs b))"
proof -
  from resample_entry [OF assms] obtain k where
    k: "b = start_day (Min (fst ` set rs)) + k * width r"
    and v: "v = bin_mean (start_day (Min (fst ` set rs))) (width r) rs b" by blast
  have "filter (\<lambda>x. bucket_start (start_day (Min (fst ` set rs))) (width r) (fst x) = b) rs
      = bucket_records r rs b"
    unfolding bucket_records_def using bucket_start_iff [OF width_pos k] by simp
  then show ?thesis
    by (simp add: v bin_mean_def)
qed

lemma resample_labels:
  assumes "rs \<noteq> []"
  shows "\<exists>n. map fst (resample_mean r rs) =
           map (\<lambda>k. bucket_start (start_day (Min (fst ` set rs))) (width r) (Min (fst ` set rs))
                        + int k * width r) [0 ..< Suc n]
         \<and> bucket_start (start_day (Min (fst ` set rs))) (width r) (Max (fst ` set rs))
           = bucket_start (start_day (Min (fst ` set rs))) (width r) (Min (fst ` set rs)) + int n * width r"
proof -
  from resample_shape [OF assms, of r] obtain n where
    a: "resample_mean r rs =
           map (\<lambda>b. (b, bin_mean (start_day (Min (fst ` set rs))) (width r) rs b))
             (map (\<lambda>k. bucket_start (start_day (Min (fst ` set rs))) (width r) (Min (fst ` set rs))
                        + int k * width r) [0 ..< Suc n])"
    and b: "bucket_start (start_day (Min (fst ` set rs))) (width r) (Max (fst ` set rs))
           = bucket_start (start_day (Min (fst ` set rs))) (width r) (Min (fst ` set rs)) + int n * width r"
    by blast
  have "map fst (resample_mean r rs) =
           map (\<lambda>k. bucket_start (start_day (Min (fst ` set rs))) (width r) (Min (fst ` set rs))
                        + int k * width r) [0 ..< Suc n]"
    unfolding a by (simp only: map_map comp_def fst_conv)
  with b show ?thesis by blast
qed

lemma resample_labels_iff:
  "b \<in> set (map fst (resample_mean r rs)) \<longleftrightarrow>
     width r dvd b \<and> (\<exists>x\<in>set rs. fst x < b + width r) \<and> (\<exists>y\<in>set rs. b \<le> fst y)"
proof (cases "rs = []")
  case True
  then show ?thesis by (simp add: resample_mean_def)
next
  case False
  define w where "w = width r"
  define f where "f = Min (fst ` set rs)"
  define l where "l = Max (fst ` set rs)"
  define origin where "origin = start_day f"
  define lo where "lo = bucket_start origin w f"
  have w: "0 < w" by (simp add: w_def width_pos)
  from resample_labels [OF False, of r] obtain n where
    out: "map fst (resample_mean r rs) = map (\<lambda>k. lo + int k * w) [0 ..< Suc n]"
    and hi: "bucket_start origin w l = lo + int n * w"
    unfolding w_def origin_def lo_def f_def l_def by blast
  have fin: "finite (fst ` set rs)" "fst ` set rs \<noteq> {}" using False by simp_all
  have f_in: "f \<in> fst ` set rs" unfolding f_def using fin by (rule Min_in)
  have l_in: "l \<in> fst ` set rs" unfolding l_def using fin by (rule Max_in)
  have f_le: "f \<le> fst x" if "x \<in> set rs" for x unfolding f_def using that by simp
  have l_ge: "fst x \<le> l" if "x \<in> set rs" for x unfolding l_def using that by simp
  from width_dvd_start_day [of r f] obtain c where c: "origin = c * w"
    unfolding origin_def w_def by (auto simp: dvd_def mult.commute)
  from bucket_start_aligned obtain i where i: "lo = origin + i * w"
    unfolding lo_def by blast
  have lo_f: "lo \<le> f" "f < lo + w" using bucket_start_range [OF w, of origin f] by (simp_all add: lo_def)
  have hi_l: "lo + int n * w \<le> l" "l < lo + int n * w + w"
    using bucket_start_range [OF w, of origin l] by (simp_all add: hi)
  show ?thesis
  proof
    assume "b \<in> set (map fst (resample_mean r rs))"
    then have "b \<in> (\<lambda>k. lo + int k * w) ` {0 ..< Suc n}" by (simp only: out set_map set_upt)
    then obtain k where b: "b = lo + int k * w" and kn: "k \<in> {0 ..< Suc n}" by (rule imageE)
    have "b = (c + i + int k) * w" using b i c by (simp add: algebra_simps)
    then have d: "width r dvd b" by (simp add: w_def)
    have "int k * w \<le> int n * w" using kn w by (simp add: mult_right_mono)
    then have bl: "b \<le> l" using hi_l b by linarith
    have "0 \<le> int k * w" using w by simp
    then have bf: "f < b + w" using lo_f b by linarith
    from f_in bf have "\<exists>x\<in>set rs. fst x < b + width r" by (auto simp: w_def)
    moreover from l_in bl have "\<exists>y\<in>set rs. b \<le> fst y" by auto
    ultimately show "width r dvd b \<and> (\<exists>x\<in>set rs. fst x < b + width r) \<and> (\<exists>y\<in>set rs. b \<le> fst y)"
      using d by blast
  next
    assume a: "width r dvd b \<and> (\<exists>x\<in>set rs. fst x < b + width r) \<and> (\<exists>y\<in>set rs. b \<le> fst y)"
    then obtain j where j: "b = j * w" by (auto simp: dvd_def w_def mult.commute)
    from a obtain x y where x: "x \<in> set rs" "fst x < b + w" and y: "y \<in> set rs" "b \<le> fst y"
      by (auto simp: w_def)
    have "lo < b + w" using lo_f f_le [OF x(1)] x(2) by linarith
    then have "(c + i) * w < (j + 1) * w" using i c j by (simp add: algebra_simps)
    then have ij: "c + i \<le> j" using w by (simp add: mult_less_cancel_right)
    have "b \<le> l" using y l_ge [OF y(1)] by linarith
    then have "b < lo + int n * w + w" using hi_l by linarith
    then have "j * w < (c + i + int n + 1) * w" using i c j by (simp add: algebra_simps)
    then have jn: "j < c + i + int n + 1" using w by (simp add: mult_less_cancel_right)
    define k where "k = nat (j - (c + i))"
    have "b = lo + int k * w" using ij i c j by (simp add: k_def algebra_simps)
    moreover have "k \<in> {0 ..< Suc n}" using ij jn by (simp add: k_def)
    ultimately have "b \<in> (\<lambda>k. lo + int k * w) ` {0 ..< Suc n}" by (rule image_eqI)
    then show "b \<in> set (map fst (resample_mean r rs))" by (simp only: out set_map set_upt)
  qed
qed

lemma resample_labels_sorted: "sorted_wrt (<) (map fst (resample_mean r rs))"
proof (cases "rs = []")
  case True
  then show ?thesis by (simp add: resample_mean_def)
next
  case False
  from resample_labels [OF False, of r] obtain n lo where
    "map fst (resample_mean r rs) = map (\<lambda>k. lo + int k * width r) [0 ..< Suc n]"
    by blast
  then show ?thesis by (simp only: labels_sorted [OF width_pos])
qed

text \<open>
  Claim C1. Every entry \<open>(b, v)\<close> of the resampler's output gives, for every zone \<open>z\<close>,
  the arithmetic mean of the values of \<open>z\<close> in exactly the input records whose timestamp
  \<open>t\<close> satisfies \<open>b \<le> t < b + width r\<close>, the missing values left out of the sum and of the
  count; when no such record has a value for \<open>z\<close>, the entry is missing, not zero.
\<close>

theorem resample_bucket_mean:
  assumes "(b, v) \<in> set (resample_mean r rs)"
  shows "v z =
    (let vals = present (map (\<lambda>x. snd x z) (filter (\<lambda>x. b \<le> fst x \<and> fst x < b + width r) rs))
     in if vals = [] then None else Some (sum_list vals / real (length vals)))"
  using resample_entry_mean [OF assms, of z]
  by (simp add: mean_skipna_def bucket_records_def)

theorem resample_bucket_mean_witness:
  "(0, snd (hd (resample_mean R1H demo))) \<in> set (resample_mean R1H demo)
   \<and> snd (hd (resample_mean R1H demo)) ''east'' = Some 15
   \<and> snd (hd (resample_mean R1H demo)) ''west'' = Some 30
   \<and> snd (resample_mean R1H demo ! 1) ''west'' = None"
proof -
  have m: "(0, snd (hd (resample_mean R1H demo))) \<in> set (resample_mean R1H demo)"
    by (simp add: demo_resampled)
  have n: "(60 * minute, snd (resample_mean R1H demo ! 1)) \<in> set (resample_mean R1H demo)"
    by (simp add: demo_resampled)
  show ?thesis
    using m resample_bucket_mean [OF m, of "''east''"] resample_bucket_mean [OF m, of "''west''"]
      resample_bucket_mean [OF n, of "''west''"]
    by (simp add: demo_def minute_def present_def List.map_filter_def)
qed

text \<open>
  Claim C3, as the specification states it, fails: the sample has records in the first and
  in the third hour and none in the second, and the hourly output has an entry for the
  second hour all the same.
\<close>

theorem resample_empty_bucket_counterexample:
  "map fst (resample_mean R1H demo) = [0, 60 * minute, 120 * minute]
   \<and> bucket_records R1H demo (60 * minute) = []"
  by (simp add: demo_resampled) (simp add: bucket_records_def demo_def minute_def)

text \<open>
  Claim C3, amended. The output of the resampler is in strictly ascending bucket order
  and has one entry for every bucket, aligned to a multiple of the width, from the bucket
  of the earliest record to the bucket of the latest record, and for no other; the empty
  input gives the empty output. An emitted bucket that holds no record has every zone
  missing.
\<close>

theorem resample_emits_span:
  "resample_mean r [] = []
   \<and> sorted_wrt (<) (map fst (resample_mean r rs))
   \<and> (b \<in> set (map fst (resample_mean r rs)) \<longleftrightarrow>
        width r dvd b \<and> (\<exists>x\<in>set rs. fst x < b + width r) \<and> (\<exists>y\<in>set rs. b \<le> fst y))
   \<and> ((b, v) \<in> set (resample_mean r rs) \<and> bucket_records r rs b = [] \<longrightarrow> v z = None)"
proof -
  have "resample_mean r [] = []" by (simp add: resample_mean_def)
  moreover have "v z = None" if "(b, v) \<in> set (resample_mean r rs)" "bucket_records r rs b = []"
    using resample_entry_mean [OF that(1), of z] that(2)
    by (simp add: mean_skipna_def present_def List.map_filter_def)
  ultimately show ?thesis
    using resample_labels_sorted [of r rs] resample_labels_iff [of b r rs] by blast
qed

theorem resample_emits_span_witness:
  "(60 * minute, snd (resample_mean R1H demo ! 1)) \<in> set (resample_mean R1H demo)
   \<and> bucket_records R1H demo (60 * minute) = []
   \<and> snd (resample_mean R1H demo ! 1) ''east'' = None
   \<and> width R1H dvd 60 * minute
   \<and> (\<exists>x\<in>set demo. fst x < 60 * minute + width R1H)
   \<and> (\<exists>y\<in>set demo. 60 * minute \<le> fst y)
   \<and> 60 * minute \<in> set (map fst (resample_mean R1H demo))
   \<and> sorted_wrt (<) (map fst (resample_mean R1H demo))"
proof -
  have m: "(60 * minute, snd (resample_mean R1H demo ! 1)) \<in> set (resample_mean R1H demo)"
    by (simp add: demo_resampled)
  have e: "bucket_records R1H demo (60 * minute) = []"
    by (simp add: bucket_records_def demo_def minute_def)
  have d: "width R1H dvd 60 * minute" by simp
  have x: "\<exists>x\<in>set demo. fst x < 60 * minute + width R1H" by (simp add: demo_def minute_def)
  have y: "\<exists>y\<in>set demo. 60 * minute \<le> fst y" by (simp add: demo_def minute_def)
  show ?thesis
    using m e d x y
      resample_emits_span [of R1H demo "60 * minute" "snd (resample_mean R1H demo ! 1)" "''east''"]
    by blast
qed

text \<open>
  Claim C8. Resampling at a rule \<open>r\<close> the output of the resampler at \<open>r\<close>, each entry
  taken as a record at its bucket start, gives that output again. The values are equal,
  not only close: every bucket of the second pass holds one record.
\<close>

theorem resample_idempotent:
  "resample_mean r (resample_mean r rs) = resample_mean r rs"
proof (cases "rs = []")
  case True
  then show ?thesis by (simp add: resample_mean_def)
next
  case False
  define w where "w = width r"
  define origin where "origin = start_day (Min (fst ` set rs))"
  define lo where "lo = bucket_start origin w (Min (fst ` set rs))"
  define F where "F = bin_mean origin w rs"
  have w: "0 < w" by (simp add: w_def width_pos)
  from resample_shape [OF False, of r] obtain n where
    out: "resample_mean r rs = map (\<lambda>b. (b, F b)) (map (\<lambda>k. lo + int k * w) [0 ..< Suc n])"
    by (auto simp: w_def origin_def lo_def F_def)
  define L where "L = map (\<lambda>k. lo + int k * w) [0 ..< Suc n]"
  define out where "out = map (\<lambda>b. (b, F b)) L"
  have ne: "out \<noteq> []" by (simp add: out_def L_def)
  have img: "fst ` set out = set L" by (force simp: out_def)
  have mn: "Min (fst ` set out) = lo"
    unfolding img L_def by (rule labels_Min [OF w])
  have mx: "Max (fst ` set out) = lo + int n * w"
    unfolding img L_def by (rule labels_Max [OF w])
  have o': "start_day lo = origin"
    unfolding lo_def origin_def by (rule start_day_bucket [OF w])
  from bucket_start_aligned obtain i where i: "lo = origin + i * w"
    unfolding lo_def by blast
  have fixed: "bucket_start origin w b = b" if "b \<in> set L" for b
  proof -
    from that obtain k where "b = lo + int k * w" unfolding L_def set_map by blast
    then have "b = origin + (i + int k) * w" using i by (simp add: algebra_simps)
    then show ?thesis by (rule bucket_start_fixed [OF w])
  qed
  have lo_in: "lo \<in> set L"
    unfolding L_def set_map by (rule image_eqI [where x = 0]) (simp_all del: upt_Suc)
  have hi_in: "lo + int n * w \<in> set L"
    unfolding L_def set_map by (rule image_eqI [where x = n]) (simp_all del: upt_Suc)
  have lab: "bin_labels (bucket_start origin w lo) (bucket_start origin w (lo + int n * w)) w = L"
    by (simp only: fixed [OF lo_in] fixed [OF hi_in] bin_labels_span [OF w] L_def)
  have dist: "distinct L" unfolding L_def by (rule labels_distinct [OF w])
  have mean: "bin_mean origin w out b = F b" if "b \<in> set L" for b
  proof -
    have "filter (\<lambda>x. bucket_start origin w (fst x) = b) out
        = map (\<lambda>b. (b, F b)) (filter (\<lambda>x. bucket_start origin w x = b) L)"
      by (simp add: out_def filter_map comp_def)
    also have "filter (\<lambda>x. bucket_start origin w x = b) L = filter (\<lambda>x. x = b) L"
      by (rule filter_cong) (simp_all add: fixed)
    also have "\<dots> = [b]" by (rule filter_eq_singleton [OF dist that])
    finally show ?thesis by (simp add: bin_mean_def mean_skipna_single)
  qed
  have "resample_mean r out = map (\<lambda>b. (b, bin_mean origin w out b)) L"
    using ne by (simp add: resample_mean_def Let_def mn mx o' lab w_def [symmetric])
  also have "\<dots> = out"
    unfolding out_def by (rule map_cong) (simp_all add: mean [unfolded out_def])
  finally show ?thesis by (simp add: out out_def L_def)
qed

section \<open>Properties of the time window\<close>

lemma filter_contiguous:
  assumes "sorted_wrt R xs"
    and convex: "\<And>x y z. P x \<Longrightarrow> P z \<Longrightarrow> R x y \<Longrightarrow> R y z \<Longrightarrow> P y"
  shows "\<exists>pre post. xs = pre @ filter P xs @ post
           \<and> (\<forall>x\<in>set pre. \<not> P x) \<and> (\<forall>x\<in>set post. \<not> P x)"
  using assms(1)
proof (induction xs)
  case Nil
  then show ?case by simp
next
  case (Cons x xs)
  then obtain pre post where
    xs: "xs = pre @ filter P xs @ post" and pre: "\<forall>x\<in>set pre. \<not> P x" and post: "\<forall>x\<in>set post. \<not> P x"
    by auto
  show ?case
  proof (cases "P x")
    case False
    have "x # xs = (x # pre) @ filter P (x # xs) @ post" using xs False by simp
    moreover have "\<forall>y\<in>set (x # pre). \<not> P y" using pre False by simp
    ultimately show ?thesis using post by blast
  next
    case True
    show ?thesis
    proof (cases "filter P xs = []")
      case True
      then have "\<forall>y\<in>set xs. \<not> P y" by (simp add: filter_empty_conv)
      moreover have "x # xs = [] @ filter P (x # xs) @ xs" using True \<open>P x\<close> by simp
      ultimately show ?thesis by (metis empty_iff list.set(1))
    next
      case False
      then obtain z where z: "z \<in> set (filter P xs)" by (cases "filter P xs") auto
      have "pre = []"
      proof (rule ccontr)
        assume "pre \<noteq> []"
        then obtain y where y: "y \<in> set pre" by (cases pre) auto
        have "y \<in> set xs" using xs y by (metis UnCI set_append)
        then have xy: "R x y" using Cons.prems by simp
        have "sorted_wrt R (pre @ filter P xs @ post)" using Cons.prems xs by simp
        then have yz: "R y z" using y z by (auto simp: sorted_wrt_append)
        have "P z" using z by simp
        from convex [OF \<open>P x\<close> this xy yz] pre y show False by blast
      qed
      then have "x # xs = [] @ filter P (x # xs) @ post" using xs \<open>P x\<close> by simp
      then show ?thesis using post by (metis empty_iff list.set(1))
    qed
  qed
qed

lemma mask_iff: "mask s e x \<longleftrightarrow> (\<exists>t. fst x = Some t \<and> s \<le> t \<and> t \<le> e)"
  by (cases "fst x") (simp_all add: mask_def)

lemma mask_convex:
  assumes "mask s e x" "mask s e z" "stamp_le (fst x) (fst y)" "stamp_le (fst y) (fst z)"
  shows "mask s e y"
proof -
  from assms(1,2) obtain a c where a: "fst x = Some a" "s \<le> a" and c: "fst z = Some c" "c \<le> e"
    by (auto simp: mask_iff)
  from assms(4) c obtain b where b: "fst y = Some b" "b \<le> c" by (cases "fst y") auto
  from assms(3) a b have "a \<le> b" by simp
  with a b c show ?thesis by (simp add: mask_iff)
qed

text \<open>
  Claim C4. On a data set in time order, the time window filter returns exactly the
  records with \<open>start \<le> timestamp \<le> end\<close>, both bounds included, as one contiguous run of
  the data set in ascending order: the data set is a prefix, the result and a suffix, and no
  record of the prefix or of the suffix lies in the window. An empty result is a result.
\<close>

theorem time_window_filter_exact:
  assumes "time_sorted recs"
  shows "(\<forall>x. x \<in> set (time_window_filter s e recs) \<longleftrightarrow>
            x \<in> set recs \<and> (\<exists>t. fst x = Some t \<and> s \<le> t \<and> t \<le> e))
     \<and> (\<exists>pre post. recs = pre @ time_window_filter s e recs @ post
            \<and> (\<forall>x\<in>set (pre @ post). \<forall>t. fst x = Some t \<longrightarrow> t < s \<or> e < t))
     \<and> sorted_wrt (\<lambda>x y. \<exists>a b. fst x = Some a \<and> fst y = Some b \<and> a \<le> b)
          (time_window_filter s e recs)"
proof -
  have 1: "\<forall>x. x \<in> set (time_window_filter s e recs) \<longleftrightarrow>
            x \<in> set recs \<and> (\<exists>t. fst x = Some t \<and> s \<le> t \<and> t \<le> e)"
    by (simp add: time_window_filter_def mask_iff)
  from filter_contiguous [of "\<lambda>x y. stamp_le (fst x) (fst y)" recs "mask s e"] assms mask_convex
  obtain pre post where
    pp: "recs = pre @ time_window_filter s e recs @ post"
    and out: "\<forall>x\<in>set pre. \<not> mask s e x" "\<forall>x\<in>set post. \<not> mask s e x"
    unfolding time_sorted_def time_window_filter_def by blast
  have "t < s \<or> e < t" if "x \<in> set (pre @ post)" "fst x = Some t" for x t
  proof -
    from that(1) out have "\<not> mask s e x" by auto
    with that(2) show ?thesis unfolding mask_iff by force
  qed
  then have "\<forall>x\<in>set (pre @ post). \<forall>t. fst x = Some t \<longrightarrow> t < s \<or> e < t"
    by blast
  with pp have 2: "\<exists>pre post. recs = pre @ time_window_filter s e recs @ post
            \<and> (\<forall>x\<in>set (pre @ post). \<forall>t. fst x = Some t \<longrightarrow> t < s \<or> e < t)" by blast
  have "sorted_wrt (\<lambda>x y. stamp_le (fst x) (fst y)) (time_window_filter s e recs)"
    using assms unfolding time_sorted_def time_window_filter_def by (rule sorted_wrt_filter)
  then have 3: "sorted_wrt (\<lambda>x y. \<exists>a b. fst x = Some a \<and> fst y = Some b \<and> a \<le> b)
          (time_window_filter s e recs)"
  proof (rule sorted_wrt_mono_rel [rotated])
    fix x y
    assume "x \<in> set (time_window_filter s e recs)" "y \<in> set (time_window_filter s e recs)"
      "stamp_le (fst x) (fst y)"
    then show "\<exists>a b. fst x = Some a \<and> fst y = Some b \<and> a \<le> b"
      using 1 by auto
  qed
  from 1 2 3 show ?thesis by blast
qed

theorem time_window_filter_exact_witness:
  "time_sorted (records demo_dataset)
   \<and> map fst (time_window_filter 0 (30 * minute) (records demo_dataset)) = [Some 0, Some (30 * minute)]
   \<and> (\<exists>pre post. records demo_dataset = pre @ time_window_filter 0 (30 * minute) (records demo_dataset) @ post
         \<and> (\<forall>x\<in>set (pre @ post). \<forall>t. fst x = Some t \<longrightarrow> t < 0 \<or> 30 * minute < t))"
proof -
  have s: "time_sorted (records demo_dataset)"
    by (simp add: time_sorted_def demo_dataset_def demo_def minute_def)
  have m: "map fst (time_window_filter 0 (30 * minute) (records demo_dataset)) = [Some 0, Some (30 * minute)]"
    by (simp add: time_window_filter_def mask_def demo_dataset_def demo_def minute_def)
  from s m time_window_filter_exact [OF s, of 0 "30 * minute"] show ?thesis by blast
qed

section \<open>Properties of the KPI target and of the KPIs\<close>

text \<open>
  Claim C2. The KPI target is the column \<^verbatim>\<open>pjm_rto\<close> whenever the frame has it, whatever is
  selected; otherwise the row-wise sum over the selected zones when the selection is not
  empty; otherwise the row-wise sum over all zones. A missing value counts as 0 in a sum.
  The selection and the zones are columns of the frame, as the select box ensures.
\<close>

theorem series_for_kpis_priority:
  "(''pjm_rto'' \<in> set (columns v) \<longrightarrow>
      series_for_kpis sel nc v = Inr (map (\<lambda>x. snd x ''pjm_rto'') (rows v)))
   \<and> (''pjm_rto'' \<notin> set (columns v) \<and> sel \<noteq> [] \<and> set sel \<subseteq> set (columns v) \<longrightarrow>
      series_for_kpis sel nc v =
        Inr (map (\<lambda>x. Some (\<Sum>z\<leftarrow>sel. case snd x z of None \<Rightarrow> 0 | Some y \<Rightarrow> y)) (rows v)))
   \<and> (''pjm_rto'' \<notin> set (columns v) \<and> sel = [] \<and> set nc \<subseteq> set (columns v) \<longrightarrow>
      series_for_kpis sel nc v =
        Inr (map (\<lambda>x. Some (\<Sum>z\<leftarrow>nc. case snd x z of None \<Rightarrow> 0 | Some y \<Rightarrow> y)) (rows v)))"
  by (simp add: series_for_kpis_def getcol_def sum_axis1_def row_sum_def)

theorem series_for_kpis_priority_witness:
  "''pjm_rto'' \<in> set (columns rto_frame)
   \<and> series_for_kpis [''east''] [''pjm_rto'', ''east'', ''west''] rto_frame = Inr [Some 100, Some 120]
   \<and> ''pjm_rto'' \<notin> set (columns demo_frame) \<and> [''east'', ''west''] \<noteq> []
   \<and> set [''east'', ''west''] \<subseteq> set (columns demo_frame)
   \<and> series_for_kpis [''east'', ''west''] [''east'', ''west''] demo_frame = Inr [Some 40, Some 20, Some 90]
   \<and> series_for_kpis [] [''east''] demo_frame = Inr [Some 10, Some 20, Some 40]"
proof -
  have a: "''pjm_rto'' \<in> set (columns rto_frame)" by (simp add: rto_frame_def)
  have b: "''pjm_rto'' \<notin> set (columns demo_frame)" by (simp add: demo_frame_def)
  have c: "set [''east'', ''west''] \<subseteq> set (columns demo_frame)" by (simp add: demo_frame_def)
  have d: "set [''east''] \<subseteq> set (columns demo_frame)" by (simp add: demo_frame_def)
  have r: "map (\<lambda>x. snd x ''pjm_rto'') (rows rto_frame) = [Some 100, Some 120]"
    by (simp add: rto_frame_def)
  have s: "rows demo_frame = demo" by (simp add: demo_frame_def)
  show ?thesis
    using a b c d
      series_for_kpis_priority [of rto_frame "[''east'']" "[''pjm_rto'', ''east'', ''west'']"]
      series_for_kpis_priority [of demo_frame "[''east'', ''west'']" "[''east'', ''west'']"]
      series_for_kpis_priority [of demo_frame "[]" "[''east'']"]
    by (simp add: r s demo_def)
qed

text \<open>
  Claim C5. An empty target gives no KPI set. A non-empty target gives a KPI set whose
  percent change is \<open>(last - first) / |first| * 100\<close> when the target has at least two points
  and its first value is not zero, and NaN otherwise; the formula is itself NaN when the
  first or the last value is NaN.
\<close>

theorem kpis_pct_change:
  "kpis [] = None
   \<and> (target \<noteq> [] \<longrightarrow>
        (\<exists>k. kpis target = Some k
           \<and> pct k =
               (if 2 \<le> length target \<and> hd target \<noteq> Some 0
                then (case hd target of
                        None \<Rightarrow> None
                      | Some f \<Rightarrow> (case last target of
                                     None \<Rightarrow> None
                                   | Some l \<Rightarrow> Some ((l - f) / \<bar>f\<bar> * 100)))
                else None)))"
  by (simp add: kpis_def pct_change_def nan_lift_def split: option.splits)

theorem kpis_pct_change_witness:
  "[Some 50, Some 60, Some 75] \<noteq> []
   \<and> map_option pct (kpis [Some 50, Some 60, Some 75]) = Some (Some 50)
   \<and> map_option pct (kpis [Some 0, Some 60]) = Some None
   \<and> map_option pct (kpis [Some 50]) = Some None
   \<and> map_option pct (kpis []) = None"
  using kpis_pct_change [of "[Some 50, Some 60, Some 75]"] kpis_pct_change [of "[Some 0, Some 60]"]
    kpis_pct_change [of "[Some 50]"]
  by auto

text \<open>
  Claim C7, as the specification states it, fails at priority 2: with no system total and
  both zones selected, the KPI target is the sum of the two zones and the grouping target
  is the first of them.
\<close>

theorem target_policies_counterexample:
  "series_for_kpis [''east'', ''west''] [''east'', ''west''] demo_frame = Inr [Some 40, Some 20, Some 90]
   \<and> series_for_group [''east'', ''west''] [''east'', ''west''] demo_frame = Inr [Some 10, Some 20, Some 40]"
  by (simp add: series_for_kpis_def series_for_group_def ycol_def getcol_def sum_axis1_def
      row_sum_def demo_frame_def demo_def)

text \<open>
  Claim C7, amended. The two policies pick the same series, the column \<^verbatim>\<open>pjm_rto\<close>, whenever
  the frame has it. Without it, and with a selection, the KPI target is the row-wise sum
  over the selected zones and the grouping target is the first selected zone; the two are
  the same series when one zone is selected and none of its values is missing. Without a
  selection, the KPI target is the row-wise sum over all zones and the grouping target is
  the first zone.
\<close>

theorem target_policies:
  "(''pjm_rto'' \<in> set (columns df) \<longrightarrow>
      series_for_kpis sel nc df = series_for_group sel nc df
      \<and> series_for_group sel nc df = Inr (map (\<lambda>x. snd x ''pjm_rto'') (rows df)))
   \<and> (''pjm_rto'' \<notin> set (columns df) \<and> sel = z # zs \<and> set sel \<subseteq> set (columns df) \<longrightarrow>
      series_for_kpis sel nc df = Inr (map (\<lambda>x. Some (row_sum sel (snd x))) (rows df))
      \<and> series_for_group sel nc df = Inr (map (\<lambda>x. snd x z) (rows df))
      \<and> (zs = [] \<and> (\<forall>x\<in>set (rows df). snd x z \<noteq> None) \<longrightarrow>
           series_for_kpis sel nc df = series_for_group sel nc df))
   \<and> (''pjm_rto'' \<notin> set (columns df) \<and> sel = [] \<and> nc = z # zs \<and> set nc \<subseteq> set (columns df) \<longrightarrow>
      series_for_kpis sel nc df = Inr (map (\<lambda>x. Some (row_sum nc (snd x))) (rows df))
      \<and> series_for_group sel nc df = Inr (map (\<lambda>x. snd x z) (rows df)))"
  by (auto simp: series_for_kpis_def series_for_group_def ycol_def getcol_def sum_axis1_def
      row_sum_def)

theorem target_policies_witness:
  "''pjm_rto'' \<in> set (columns rto_frame)
   \<and> series_for_kpis [''east''] [''pjm_rto'', ''east'', ''west''] rto_frame
       = series_for_group [''east''] [''pjm_rto'', ''east'', ''west''] rto_frame
   \<and> ''pjm_rto'' \<notin> set (columns demo_frame)
   \<and> set [''east'', ''west''] \<subseteq> set (columns demo_frame)
   \<and> series_for_group [''east'', ''west''] [''east'', ''west''] demo_frame
       = Inr [Some 10, Some 20, Some 40]
   \<and> list_all (\<lambda>x. snd x ''east'' \<noteq> None) (rows demo_frame)
   \<and> series_for_kpis [''east''] [''east'', ''west''] demo_frame
       = series_for_group [''east''] [''east'', ''west''] demo_frame
   \<and> series_for_kpis [] [''east'', ''west''] demo_frame = Inr [Some 40, Some 20, Some 90]
   \<and> series_for_group [] [''east'', ''west''] demo_frame = Inr [Some 10, Some 20, Some 40]"
proof -
  have a: "''pjm_rto'' \<in> set (columns rto_frame)" by (simp add: rto_frame_def)
  have b: "''pjm_rto'' \<notin> set (columns demo_frame)" by (simp add: demo_frame_def)
  have c: "set [''east'', ''west''] \<subseteq> set (columns demo_frame)" by (simp add: demo_frame_def)
  have d: "set [''east''] \<subseteq> set (columns demo_frame)" by (simp add: demo_frame_def)
  have e: "\<forall>x\<in>set (rows demo_frame). snd x ''east'' \<noteq> None"
    by (simp add: demo_frame_def demo_def)
  have s: "rows demo_frame = demo" by (simp add: demo_frame_def)
  show ?thesis
    using a b c d e
      target_policies [where df = rto_frame and sel = "[''east'']"
        and nc = "[''pjm_rto'', ''east'', ''west'']"]
      target_policies [where df = demo_frame and sel = "[''east'', ''west'']" and z = "''east''"
        and zs = "[''west'']" and nc = "[''east'', ''west'']"]
      target_policies [where df = demo_frame and sel = "[''east'']" and z = "''east''"
        and zs = "[]" and nc = "[''east'', ''west'']"]
      target_policies [where df = demo_frame and sel = "[]" and z = "''east''"
        and zs = "[''west'']" and nc = "[''east'', ''west'']"]
    by (simp add: s demo_def row_sum_def list_all_iff)
qed

section \<open>Properties of a run\<close>

lemma demo_window:
  "set_index (time_window_filter 0 (120 * minute) (records demo_dataset)) = demo"
  by (simp add: set_index_def time_window_filter_def mask_def demo_dataset_def demo_def
      minute_def List.map_filter_def)

lemma demo_view:
  "make_view demo_dataset 0 (120 * minute) R1H =
     \<lparr>columns = [''east'', ''west''],
      rows = map (\<lambda>b. (b, bin_mean 0 (60 * minute) demo b)) [0, 60 * minute, 120 * minute]\<rparr>"
  by (simp add: make_view_def demo_window demo_resampled) (simp add: demo_dataset_def)

lemma demo_bins:
  "bin_mean 0 (60 * minute) demo 0 ''east'' = Some 15"
  "bin_mean 0 (60 * minute) demo (60 * minute) ''east'' = None"
  "bin_mean 0 (60 * minute) demo (120 * minute) ''east'' = Some 40"
  by (simp_all add: bin_mean_def bucket_start_def demo_def minute_def mean_skipna_def
      present_def List.map_filter_def)

lemma demo_target:
  "series_for_kpis [''east''] [''east'', ''west''] (make_view demo_dataset 0 (120 * minute) R1H)
     = Inr [Some 15, Some 0, Some 40]"
  by (simp add: demo_view series_for_kpis_def sum_axis1_def row_sum_def demo_bins)

lemma demo_run:
  "map_sum id (\<lambda>out. map_option trough (out_kpis out))
     (dashboard demo_dataset 0 (120 * minute) R1H [''east'']) = Inr (Some (Some 0))"
proof -
  have n: "numeric_cols demo_dataset = [''east'', ''west'']" by (simp add: demo_dataset_def)
  have m: "melt (make_view demo_dataset 0 (120 * minute) R1H) [''east'']
      = Inr (concat (map (\<lambda>z. map (\<lambda>r. (fst r, z, snd r z))
               (rows (make_view demo_dataset 0 (120 * minute) R1H))) [''east'']))"
    by (simp add: melt_def demo_view)
  have z: "zone_means (make_view demo_dataset 0 (120 * minute) R1H) [''east'', ''west'']
      = Inr (sort_desc (map (\<lambda>z. (z, mean_skipna (map (\<lambda>r. snd r z)
               (rows (make_view demo_dataset 0 (120 * minute) R1H))))) [''east'', ''west'']))"
    by (simp add: zone_means_def demo_view)
  have k: "map_option trough (kpis [Some 15, Some 0, Some 40]) = Some (Some 0)"
    by (simp add: kpis_def min_skipna_def present_def List.map_filter_def)
  show ?thesis
    by (simp add: dashboard_def Let_def n demo_target m z k)
qed

lemma demo_positive:
  "\<forall>x\<in>set (records demo_dataset). \<forall>z y. snd x z = Some y \<longrightarrow> 0 < y"
  by (auto simp: demo_dataset_def demo_def split: if_splits)

text \<open>
  Claim C9. Without the system total and with a zone selected, the KPI target has the value
  0, not a missing value, at every row in which all selected zones are missing. In the
  sample data set every present value is positive and the second hour of the window has no
  record, and the reported trough of the hourly view is 0.
\<close>

theorem kpi_target_zero_on_missing_row:
  "(''pjm_rto'' \<notin> set (columns v) \<and> sel \<noteq> [] \<and> series_for_kpis sel nc v = Inr target
      \<and> i < length (rows v) \<and> (\<forall>z\<in>set sel. snd (rows v ! i) z = None)
      \<longrightarrow> target ! i = Some 0)
   \<and> (\<forall>x\<in>set (records demo_dataset). \<forall>z y. snd x z = Some y \<longrightarrow> 0 < y)
   \<and> ''pjm_rto'' \<notin> set (numeric_cols demo_dataset)
   \<and> map_sum id (\<lambda>out. map fst (rows (out_view out)))
        (dashboard demo_dataset 0 (120 * minute) R1H [''east''])
       = Inr [0, 60 * minute, 120 * minute]
   \<and> bucket_records R1H (set_index (time_window_filter 0 (120 * minute) (records demo_dataset)))
        (60 * minute) = []
   \<and> map_sum id (\<lambda>out. map_option trough (out_kpis out))
        (dashboard demo_dataset 0 (120 * minute) R1H [''east'']) = Inr (Some (Some 0))"
proof -
  have 1: "target ! i = Some 0"
    if "''pjm_rto'' \<notin> set (columns v)" "sel \<noteq> []" "series_for_kpis sel nc v = Inr target"
      "i < length (rows v)" "\<forall>z\<in>set sel. snd (rows v ! i) z = None"
  proof -
    from that(1-3) have t: "target = map (\<lambda>r. Some (row_sum sel (snd r))) (rows v)"
      by (auto simp: series_for_kpis_def sum_axis1_def split: if_splits)
    have "map (\<lambda>z. case snd (rows v ! i) z of None \<Rightarrow> 0 | Some x \<Rightarrow> x) sel = map (\<lambda>z. 0::real) sel"
      by (rule map_cong) (use that(5) in simp_all)
    then have "row_sum sel (snd (rows v ! i)) = sum_list (map (\<lambda>z. 0::real) sel)"
      unfolding row_sum_def by (rule arg_cong)
    then have "row_sum sel (snd (rows v ! i)) = 0" by simp
    with t that(4) show ?thesis by simp
  qed
  have 2: "''pjm_rto'' \<notin> set (numeric_cols demo_dataset)" by (simp add: demo_dataset_def)
  have 3: "map_sum id (\<lambda>out. map fst (rows (out_view out)))
        (dashboard demo_dataset 0 (120 * minute) R1H [''east''])
       = Inr [0, 60 * minute, 120 * minute]"
    using demo_run
    by (auto simp: dashboard_def Let_def demo_view split: sum.splits if_splits)
  have 4: "bucket_records R1H (set_index (time_window_filter 0 (120 * minute) (records demo_dataset)))
        (60 * minute) = []"
    by (simp add: demo_window) (simp add: bucket_records_def demo_def minute_def)
  from 1 2 3 4 demo_positive demo_run show ?thesis by blast
qed

theorem kpi_target_zero_on_missing_row_witness:
  "''pjm_rto'' \<notin> set (columns (make_view demo_dataset 0 (120 * minute) R1H))
   \<and> [''east''] \<noteq> []
   \<and> series_for_kpis [''east''] [''east'', ''west''] (make_view demo_dataset 0 (120 * minute) R1H)
       = Inr [Some 15, Some 0, Some 40]
   \<and> 1 < length (rows (make_view demo_dataset 0 (120 * minute) R1H))
   \<and> list_all (\<lambda>z. snd (rows (make_view demo_dataset 0 (120 * minute) R1H) ! 1) z = None) [''east'']
   \<and> [Some 15, Some 0, Some (40::real)] ! 1 = Some 0"
proof -
  have a: "''pjm_rto'' \<notin> set (columns (make_view demo_dataset 0 (120 * minute) R1H))"
    by (simp add: demo_view)
  have b: "1 < length (rows (make_view demo_dataset 0 (120 * minute) R1H))"
    by (simp add: demo_view)
  have c: "\<forall>z\<in>set [''east'']. snd (rows (make_view demo_dataset 0 (120 * minute) R1H) ! 1) z = None"
    by (simp add: demo_view demo_bins)
  have d: "[''east''] \<noteq> []" by simp
  have c': "list_all (\<lambda>z. snd (rows (make_view demo_dataset 0 (120 * minute) R1H) ! 1) z = None) [''east'']"
    using c by (simp add: list_all_iff)
  from a b c c' d demo_target
    kpi_target_zero_on_missing_row [where v = "make_view demo_dataset 0 (120 * minute) R1H"
      and sel = "[''east'']" and nc = "[''east'', ''west'']"
      and target = "[Some 15, Some 0, Some 40]" and i = 1]
  show ?thesis by blast
qed

lemma mset_sort_desc: "mset (sort_desc ms) = mset ms"
proof -
  have "mset (sort_desc ms) = filter_mset (\<lambda>m. snd m \<noteq> None) (mset ms)
      + filter_mset (\<lambda>m. \<not> snd m \<noteq> None) (mset ms)"
    by (simp add: sort_desc_def)
  then show ?thesis by (simp only: multiset_partition [symmetric])
qed

lemma sorted_sort_desc: "sorted_wrt rank_ge (sort_desc ms)"
proof -
  let ?key = "\<lambda>m::string \<times> real option. - the (snd m)"
  let ?ps = "sort_key ?key (filter (\<lambda>m. snd m \<noteq> None) ms)"
  let ?ns = "filter (\<lambda>m. snd m = None) ms"
  have "sorted (map ?key ?ps)" by (rule sorted_sort_key)
  then have "sorted_wrt (\<lambda>a b. ?key a \<le> ?key b) ?ps" by (simp add: sorted_map)
  then have "sorted_wrt rank_ge ?ps"
  proof (rule sorted_wrt_mono_rel [rotated])
    fix a b
    assume "a \<in> set ?ps" "b \<in> set ?ps" "?key a \<le> ?key b"
    then show "rank_ge a b" by (auto simp: rank_ge_def)
  qed
  moreover have "sorted_wrt rank_ge ?ns"
    by (rule sorted_wrt_mono_rel [of _ "\<lambda>a b. True"]) (auto simp: rank_ge_def)
  moreover have "\<forall>a\<in>set ?ps. \<forall>b\<in>set ?ns. rank_ge a b" by (simp add: rank_ge_def)
  ultimately show ?thesis unfolding sort_desc_def sorted_wrt_append by blast
qed

lemma dashboard_zone_means:
  assumes "set sel \<subseteq> set (numeric_cols d)"
  shows "\<exists>out. dashboard d s e r sel = Inr out
     \<and> out_zone_means out =
         sort_desc (map (\<lambda>z. (z, mean_skipna (map (\<lambda>x. snd x z) (rows (make_view d s e r)))))
           (numeric_cols d))"
proof -
  have c: "columns (make_view d s e r) = numeric_cols d" by (simp add: make_view_def)
  have "\<exists>target. series_for_kpis sel (numeric_cols d) (make_view d s e r) = Inr target"
    using assms by (simp add: series_for_kpis_def getcol_def sum_axis1_def c)
  then obtain target where
    t: "series_for_kpis sel (numeric_cols d) (make_view d s e r) = Inr target" ..
  have "\<exists>trend. (if sel \<noteq> [] then melt (make_view d s e r) sel else Inr []) = Inr trend"
    using assms by (simp add: melt_def c)
  then obtain trend where
    m: "(if sel \<noteq> [] then melt (make_view d s e r) sel else Inr []) = Inr trend" ..
  have z: "zone_means (make_view d s e r) (numeric_cols d) =
      Inr (sort_desc (map (\<lambda>z. (z, mean_skipna (map (\<lambda>x. snd x z) (rows (make_view d s e r)))))
           (numeric_cols d)))"
    by (simp add: zone_means_def c)
  show ?thesis
    unfolding dashboard_def Let_def t m z by simp
qed

text \<open>
  Claim C10. The ranking of the zones does not depend on the selection: two runs on the
  same data set, window and rule with any two selections both return, and with the same
  ranking. The ranking holds every zone of the data set once, with its mean over the view,
  in descending order of the mean.
\<close>

theorem zone_ranking_independent_of_selection:
  assumes "set sel1 \<subseteq> set (numeric_cols d)" and "set sel2 \<subseteq> set (numeric_cols d)"
  shows "\<exists>out1 out2. dashboard d s e r sel1 = Inr out1 \<and> dashboard d s e r sel2 = Inr out2
     \<and> out_zone_means out1 = out_zone_means out2
     \<and> mset (out_zone_means out1) =
         mset (map (\<lambda>z. (z, mean_skipna (map (\<lambda>x. snd x z) (rows (make_view d s e r)))))
           (numeric_cols d))
     \<and> sorted_wrt rank_ge (out_zone_means out1)"
proof -
  from dashboard_zone_means [OF assms(1), of s e r] obtain out1 where
    1: "dashboard d s e r sel1 = Inr out1"
    "out_zone_means out1 =
         sort_desc (map (\<lambda>z. (z, mean_skipna (map (\<lambda>x. snd x z) (rows (make_view d s e r)))))
           (numeric_cols d))" by blast
  from dashboard_zone_means [OF assms(2), of s e r] obtain out2 where
    2: "dashboard d s e r sel2 = Inr out2"
    "out_zone_means out2 =
         sort_desc (map (\<lambda>z. (z, mean_skipna (map (\<lambda>x. snd x z) (rows (make_view d s e r)))))
           (numeric_cols d))" by blast
  have "out_zone_means out1 = out_zone_means out2" using 1(2) 2(2) by simp
  moreover have "mset (out_zone_means out1) =
         mset (map (\<lambda>z. (z, mean_skipna (map (\<lambda>x. snd x z) (rows (make_view d s e r)))))
           (numeric_cols d))"
    unfolding 1(2) by (rule mset_sort_desc)
  moreover have "sorted_wrt rank_ge (out_zone_means out1)"
    unfolding 1(2) by (rule sorted_sort_desc)
  ultimately show ?thesis using 1(1) 2(1) by blast
qed

theorem zone_ranking_independent_of_selection_witness:
  "set [''east''] \<subseteq> set (numeric_cols demo_dataset)
   \<and> set [''west'', ''east''] \<subseteq> set (numeric_cols demo_dataset)
   \<and> (\<exists>out1 out2. dashboard demo_dataset 0 (120 * minute) R1H [''east''] = Inr out1
        \<and> dashboard demo_dataset 0 (120 * minute) R1H [''west'', ''east''] = Inr out2
        \<and> out_zone_means out1 = out_zone_means out2
        \<and> sorted_wrt rank_ge (out_zone_means out1))"
proof -
  have a: "set [''east''] \<subseteq> set (numeric_cols demo_dataset)" by (simp add: demo_dataset_def)
  have b: "set [''west'', ''east''] \<subseteq> set (numeric_cols demo_dataset)"
    by (simp add: demo_dataset_def)
  from a b zone_ranking_independent_of_selection [OF a b, of 0 "120 * minute" R1H]
  show ?thesis by blast
qed

section \<open>Properties of loading\<close>

lemma starts_with_iff: "starts_with p s \<longleftrightarrow> (\<exists>q. s = p @ q)"
  by (induction p s rule: starts_with.induct) auto

lemma contains_iff: "contains sub s \<longleftrightarrow> (\<exists>p q. s = p @ sub @ q)"
proof (induction s)
  case Nil
  then show ?case by auto
next
  case (Cons c cs)
  have "(\<exists>p q. c # cs = p @ sub @ q) \<longleftrightarrow> (\<exists>q. c # cs = sub @ q) \<or> (\<exists>p q. cs = p @ sub @ q)"
  proof
    assume "\<exists>p q. c # cs = p @ sub @ q"
    then obtain p q where pq: "c # cs = p @ sub @ q" by blast
    show "(\<exists>q. c # cs = sub @ q) \<or> (\<exists>p q. cs = p @ sub @ q)"
    proof (cases p)
      case Nil
      with pq show ?thesis by auto
    next
      case (Cons a p')
      with pq have "cs = p' @ sub @ q" by simp
      then show ?thesis by blast
    qed
  next
    assume "(\<exists>q. c # cs = sub @ q) \<or> (\<exists>p q. cs = p @ sub @ q)"
    then show "\<exists>p q. c # cs = p @ sub @ q"
    proof
      assume "\<exists>q. c # cs = sub @ q"
      then obtain q where "c # cs = [] @ sub @ q" by auto
      then show ?thesis by blast
    next
      assume "\<exists>p q. cs = p @ sub @ q"
      then obtain p q where "c # cs = (c # p) @ sub @ q" by auto
      then show ?thesis by blast
    qed
  qed
  with Cons show ?case by (simp add: starts_with_iff)
qed

lemma to_datetime_Inr: "to_datetime parse xs = Inr ts \<longleftrightarrow> map parse xs = map Some ts"
proof (induction xs arbitrary: ts)
  case Nil
  then show ?case by auto
next
  case (Cons x xs)
  show ?case
  proof (cases "parse x")
    case None
    then show ?thesis by (cases ts) auto
  next
    case (Some t)
    show ?thesis
    proof (cases "to_datetime parse xs")
      case (Inl e)
      with Cons Some show ?thesis by (cases ts) auto
    next
      case (Inr us)
      with Cons [of us] Cons Some show ?thesis by (cases ts) auto
    qed
  qed
qed

lemma datetime_like_iff:
  "datetime_like parse df c \<longleftrightarrow> (\<forall>r\<in>set (trows df). parse (r c) \<noteq> None)"
proof -
  have "(\<exists>ts. to_datetime parse xs = Inr ts) \<longleftrightarrow> (\<forall>x\<in>set xs. parse x \<noteq> None)" for xs
  proof (induction xs)
    case Nil
    then show ?case by simp
  next
    case (Cons x xs)
    then show ?case by (cases "parse x"; cases "to_datetime parse xs") auto
  qed
  from this [of "column_cells df c"] show ?thesis
    by (cases "to_datetime parse (column_cells df c)") (auto simp: datetime_like_def column_cells_def)
qed

lemma find_filter: "find P xs = (case filter P xs of [] \<Rightarrow> None | x # _ \<Rightarrow> Some x)"
  by (induction xs) auto

lemma time_col_find:
  "time_col parse df =
     (case find name_match (tcolumns df) of
        Some c \<Rightarrow> Inr c
      | None \<Rightarrow>
         (case find (datetime_like parse df) (tcolumns df) of
            Some c \<Rightarrow> Inr c
          | None \<Rightarrow> (case tcolumns df of [] \<Rightarrow> Inl IndexError | c # _ \<Rightarrow> Inr c)))"
  by (simp add: time_col_def time_col_candidates_def Let_def find_filter split: list.splits)

lemma time_sorted_sort_values: "time_sorted (sort_values rs)"
proof -
  let ?key = "\<lambda>r::int option \<times> 'a. the (fst r)"
  let ?ps = "sort_key ?key (filter (\<lambda>r. fst r \<noteq> None) rs)"
  let ?ns = "filter (\<lambda>r. fst r = None) rs"
  have "sorted (map ?key ?ps)" by (rule sorted_sort_key)
  then have "sorted_wrt (\<lambda>a b. ?key a \<le> ?key b) ?ps" by (simp add: sorted_map)
  then have "sorted_wrt (\<lambda>x y. stamp_le (fst x) (fst y)) ?ps"
  proof (rule sorted_wrt_mono_rel [rotated])
    fix a b
    assume "a \<in> set ?ps" "b \<in> set ?ps" "?key a \<le> ?key b"
    then show "stamp_le (fst a) (fst b)" by auto
  qed
  moreover have "sorted_wrt (\<lambda>x y. stamp_le (fst x) (fst y)) ?ns"
    by (rule sorted_wrt_mono_rel [of _ "\<lambda>a b. True"]) auto
  moreover have "\<forall>a\<in>set ?ps. \<forall>b\<in>set ?ns. stamp_le (fst a) (fst b)" by simp
  ultimately show ?thesis unfolding time_sorted_def sort_values_def sorted_wrt_append by blast
qed

lemma mset_sort_values: "mset (sort_values rs) = mset rs"
proof -
  have "mset (sort_values rs) = filter_mset (\<lambda>r. fst r \<noteq> None) (mset rs)
      + filter_mset (\<lambda>r. \<not> fst r \<noteq> None) (mset rs)"
    by (simp add: sort_values_def)
  then show ?thesis by (simp only: multiset_partition [symmetric])
qed

lemma demo_time_col: "time_col demo_parse demo_table = Inr ''ts''"
  by (simp add: time_col_def time_col_candidates_def Let_def name_match_def datetime_like_def
      column_cells_def demo_table_def)

lemma demo_load:
  "map_sum id (\<lambda>d. map fst (records d)) (load_data demo_parse demo_num demo_table)
     = Inr [Some 10, Some 20, None]"
  by (simp add: load_data_def demo_time_col column_cells_def Let_def sort_values_def)
    (simp add: demo_table_def sort_values_def)

text \<open>When neither a name nor a parse selects a column, the first column is taken and
  does not parse, so the load fails.\<close>

lemma load_data_fallback_fails:
  assumes "find name_match (tcolumns df) = None"
    and "find (datetime_like parse df) (tcolumns df) = None"
  shows "\<exists>e. load_data parse num df = Inl e"
proof (cases "tcolumns df")
  case Nil
  then show ?thesis by (simp add: load_data_def time_col_find)
next
  case (Cons c cs)
  from assms(2) have "\<not> datetime_like parse df c"
    unfolding Cons by (simp split: if_splits)
  then obtain e where "to_datetime parse (column_cells df c) = Inl e"
    by (auto simp: datetime_like_def split: sum.splits)
  then show ?thesis using assms Cons by (simp add: load_data_def time_col_find)
qed

text \<open>
  Claim C6, as the specification states it, fails: the name test of the code is sensitive
  to case. In the sample table the code takes the first column that parses, \<^verbatim>\<open>ts\<close>, and
  the case-insensitive test would take \<^verbatim>\<open>Interval_Start_Local\<close>.
\<close>

theorem time_col_case_counterexample:
  "time_col demo_parse demo_table = Inr ''ts''
   \<and> spec_time_col demo_parse demo_table = Inr ''Interval_Start_Local''"
  by (simp add: demo_time_col)
    (simp add: spec_time_col_def spec_name_match_def name_match_def to_lower_def demo_table_def)

text \<open>
  Claim C6, amended. The timestamp column is the first column, in table order, whose name
  contains \<^verbatim>\<open>interval\<close>, \<^verbatim>\<open>start\<close> and \<^verbatim>\<open>local\<close> as substrings, in exactly this case; failing
  that, the first column all of whose cells parse as a date/time; failing that, the first
  column. When every cell of the chosen column parses, the load returns, and the records
  it returns are the rows with the parsed cells of that column as timestamps, in ascending
  order of the timestamp, the rows without one last.
\<close>

theorem load_data_resolution:
  "time_col parse df =
     (case find name_match (tcolumns df) of
        Some c \<Rightarrow> Inr c
      | None \<Rightarrow>
         (case find (datetime_like parse df) (tcolumns df) of
            Some c \<Rightarrow> Inr c
          | None \<Rightarrow> (case tcolumns df of [] \<Rightarrow> Inl IndexError | c # _ \<Rightarrow> Inr c)))
   \<and> (name_match c \<longleftrightarrow> (\<forall>s\<in>{''interval'', ''start'', ''local''}. \<exists>p q. c = p @ s @ q))
   \<and> (datetime_like parse df c \<longleftrightarrow> (\<forall>r\<in>set (trows df). parse (r c) \<noteq> None))
   \<and> (load_data parse num df = Inr d \<longrightarrow>
        time_sorted (records d)
        \<and> (\<exists>tc. time_col parse df = Inr tc
              \<and> mset (map (\<lambda>x. Some (fst x)) (records d)) = mset (map (\<lambda>r. parse (r tc)) (trows df))))
   \<and> (time_col parse df = Inr tc \<and> (\<forall>r\<in>set (trows df). parse (r tc) \<noteq> None) \<longrightarrow>
        (\<exists>d'. load_data parse num df = Inr d'))"
proof -
  have 2: "name_match c \<longleftrightarrow> (\<forall>s\<in>{''interval'', ''start'', ''local''}. \<exists>p q. c = p @ s @ q)"
    by (simp add: name_match_def contains_iff)
  have 4: "time_sorted (records d)
        \<and> (\<exists>tc. time_col parse df = Inr tc
              \<and> mset (map (\<lambda>x. Some (fst x)) (records d)) = mset (map (\<lambda>r. parse (r tc)) (trows df)))"
    if l: "load_data parse num df = Inr d"
  proof -
    from l obtain tc where tc: "time_col parse df = Inr tc"
      by (cases "time_col parse df") (auto simp: load_data_def)
    from l tc obtain ts where ts: "to_datetime parse (column_cells df tc) = Inr ts"
      by (cases "to_datetime parse (column_cells df tc)") (auto simp: load_data_def)
    define ys where "ys = map (\<lambda>r z.
        if z \<in> set (filter (\<lambda>c. tnumeric df c \<and> c \<noteq> ''timestamp'') (tcolumns df))
        then num (r z) else None) (trows df)"
    have ys: "length ys = length (trows df)" by (simp add: ys_def)
    from l tc ts have d: "records d = sort_values (zip ts ys)"
      by (auto simp: load_data_def Let_def ys_def)
    from ts have m: "map parse (column_cells df tc) = map Some ts" by (simp add: to_datetime_Inr)
    then have "length (column_cells df tc) = length ts" by (rule map_eq_imp_length_eq)
    then have len: "length ts = length ys" using ys by (simp add: column_cells_def)
    have "mset (map (\<lambda>x. Some (fst x)) (records d)) = image_mset (\<lambda>x. Some (fst x)) (mset (zip ts ys))"
      unfolding d by (simp only: mset_map mset_sort_values)
    also have "\<dots> = mset (map Some (map fst (zip ts ys)))" by (simp add: comp_def)
    also have "\<dots> = mset (map Some ts)" using len by simp
    also have "\<dots> = mset (map (\<lambda>r. parse (r tc)) (trows df))"
      using m by (simp add: column_cells_def comp_def)
    finally show ?thesis using tc d time_sorted_sort_values by auto
  qed
  have 5: "\<exists>d'. load_data parse num df = Inr d'"
    if "time_col parse df = Inr tc" "\<forall>r\<in>set (trows df). parse (r tc) \<noteq> None"
  proof -
    from that(2) have "datetime_like parse df tc" by (simp add: datetime_like_iff)
    then obtain ts where "to_datetime parse (column_cells df tc) = Inr ts"
      by (auto simp: datetime_like_def split: sum.splits)
    with that(1) show ?thesis by (simp add: load_data_def Let_def)
  qed
  from time_col_find [of parse df] 2 datetime_like_iff [of parse df c] 4 5 show ?thesis
    by blast
qed

theorem load_data_resolution_witness:
  "load_data demo_parse demo_num demo_table = Inr (projr (load_data demo_parse demo_num demo_table))
   \<and> time_col demo_parse demo_table = Inr ''ts''
   \<and> list_all (\<lambda>r. demo_parse (r ''ts'') \<noteq> None) (trows demo_table)
   \<and> map fst (records (projr (load_data demo_parse demo_num demo_table))) = [Some 10, Some 20, None]
   \<and> time_sorted (records (projr (load_data demo_parse demo_num demo_table)))
   \<and> \<not> name_match ''Interval_Start_Local''
   \<and> datetime_like demo_parse demo_table ''ts''"
proof -
  have p: "\<forall>r\<in>set (trows demo_table). demo_parse (r ''ts'') \<noteq> None"
    by (simp add: demo_table_def)
  note T = load_data_resolution [where parse = demo_parse and num = demo_num and df = demo_table
      and tc = "''ts''" and c = "''ts''"]
  from T demo_time_col p have "\<exists>d'. load_data demo_parse demo_num demo_table = Inr d'"
    by blast
  then have l: "load_data demo_parse demo_num demo_table
      = Inr (projr (load_data demo_parse demo_num demo_table))" by auto
  from T p have dl: "datetime_like demo_parse demo_table ''ts''" by blast
  have m: "map fst (records (projr (load_data demo_parse demo_num demo_table))) = [Some 10, Some 20, None]"
    using demo_load l by (metis map_sum.simps(2) sum.inject(2))
  have n: "\<not> name_match ''Interval_Start_Local''" by (simp add: name_match_def)
  from load_data_resolution [where parse = demo_parse and num = demo_num and df = demo_table
      and d = "projr (load_data demo_parse demo_num demo_table)"] l
  have "time_sorted (records (projr (load_data demo_parse demo_num demo_table)))" by blast
  moreover from p have "list_all (\<lambda>r. demo_parse (r ''ts'') \<noteq> None) (trows demo_table)"
    by (simp add: list_all_iff)
  ultimately show ?thesis using l demo_time_col m n dl by blast
qed

end
